theory Spec2Isabelle
  imports Main
begin

section \<open>Paths: the parts of Go's path/filepath and strings the handler calls\<close>

text \<open>
  A Go string is a sequence of bytes, here a \<^typ>\<open>string\<close>. The handler runs on a
  Unix system, where the path separator is the slash and there is no volume name.
  \<open>filepath.Clean\<close> and \<open>filepath.Join\<close> belong to Go's standard library; they are
  modelled from its documented rules, element by element:
  multiple separators count as one, a \<open>.\<close> element is dropped, a \<open>..\<close> element removes
  the element before it that is not itself \<open>..\<close>, a \<open>..\<close> that would climb above the root
  of a rooted path is dropped, and the empty result is \<open>.\<close>.
\<close>

type_synonym path = string
type_synonym bytes = string

text \<open>\<open>strings.Split(path, "/")\<close>: the elements between the separators.\<close>

fun elements :: "string \<Rightarrow> string list" where
  "elements [] = [[]]"
| "elements (c # cs) =
     (if c = CHR ''/'' then [] # elements cs
      else (case elements cs of [] \<Rightarrow> [[c]] | e # es \<Rightarrow> (c # e) # es))"

text \<open>\<open>strings.Join(elems, "/")\<close>.\<close>

fun joinElems :: "string list \<Rightarrow> string" where
  "joinElems [] = []"
| "joinElems [e] = e"
| "joinElems (e # es) = e @ CHR ''/'' # joinElems es"

definition rooted :: "string \<Rightarrow> bool" where
  "rooted p = (p \<noteq> [] \<and> hd p = CHR ''/'')"

text \<open>
  One step of the loop of \<open>Clean\<close>: \<open>out\<close> holds the elements written so far.
\<close>

definition cleanElem :: "bool \<Rightarrow> string list \<Rightarrow> string \<Rightarrow> string list" where
  "cleanElem r out e =
     (if e = [] \<or> e = ''.'' then out
      else if e = ''..'' then
        (if out \<noteq> [] \<and> last out \<noteq> ''..'' then butlast out
         else if r then out
         else out @ [''..''])
      else out @ [e])"

definition cleanElems :: "string \<Rightarrow> string list" where
  "cleanElems p = foldl (cleanElem (rooted p)) [] (elements p)"

definition render :: "bool \<Rightarrow> string list \<Rightarrow> string" where
  "render r out =
     (if r then CHR ''/'' # joinElems out
      else if out = [] then ''.'' else joinElems out)"

definition Clean :: "string \<Rightarrow> string" where
  "Clean p = render (rooted p) (cleanElems p)"

text \<open>
  \<open>filepath.Join(a, b)\<close>: empty leading arguments are ignored, the rest is joined with
  separators and cleaned; when both are empty the result is the empty string.
\<close>

definition Join :: "string \<Rightarrow> string \<Rightarrow> string" where
  "Join a b =
     (if a \<noteq> [] then Clean (a @ CHR ''/'' # b)
      else if b \<noteq> [] then Clean b
      else [])"

text \<open>
  \<open>strings.HasPrefix\<close> and \<open>strings.HasSuffix\<close>, as Go writes them:
  \<open>len(s) >= len(prefix) && s[:len(prefix)] == prefix\<close> and
  \<open>len(s) >= len(suffix) && s[len(s)-len(suffix):] == suffix\<close>.
\<close>

definition HasPrefix :: "string \<Rightarrow> string \<Rightarrow> bool" where
  "HasPrefix s p = (length p \<le> length s \<and> take (length p) s = p)"

definition HasSuffix :: "string \<Rightarrow> string \<Rightarrow> bool" where
  "HasSuffix s x = (length x \<le> length s \<and> drop (length s - length x) s = x)"

section \<open>The path sanitizer\<close>

text \<open>
  \<^verbatim>\<open>
  func sanitizeArchivePath(d, t string) (v string, err error) {
      v = filepath.Join(d, t)
      if strings.HasPrefix(v, filepath.Clean(d)) { return v, nil }
      return "", fmt.Errorf("%s: %s", "content filepath is tainted", t)
  }
  \<close>
  The error is the left summand, carrying the formatted message.
\<close>

definition sanitizeArchivePath :: "string \<Rightarrow> string \<Rightarrow> string + string" where
  "sanitizeArchivePath d t =
     (let v = Join d t in
      if HasPrefix v (Clean d) then Inr v
      else Inl (''content filepath is tainted: '' @ t))"

section \<open>Outcomes\<close>

text \<open>
  \<open>log.Fatal\<close> logs its message and exits the process; a failed type assertion
  \<open>x.(T)\<close> and \<open>regexp.MustCompile\<close> on a malformed pattern panic. Either way the
  function does not return: the outcome is \<open>Failed\<close> with the message and the state at
  that moment. \<open>OutOfFuel\<close> is the outcome of a run whose nesting of archives is deeper
  than the fuel given to the model; it is no behaviour of the program.
\<close>

datatype error = Fatal string | Panic string

datatype ('a, 's) outcome = Done 'a 's | Failed error 's | OutOfFuel

section \<open>The file system\<close>

text \<open>
  The state of the file system is a map from cleaned paths to nodes: a regular file with
  its bytes, or a directory. Permission bits, symbolic links and full disks are not
  modelled: the process may read and write every node there is.
\<close>

datatype node = File bytes | Dir

type_synonym filesys = "path \<rightharpoonup> node"

text \<open>\<open>os.Stat(p)\<close> returns no error when there is a node at \<open>p\<close>.\<close>

definition osStat :: "filesys \<Rightarrow> path \<Rightarrow> bool" where
  "osStat fs p = (fs p \<noteq> None)"

text \<open>
  \<open>os.MkdirAll(p, perm)\<close>: nothing to do when \<open>p\<close> is a directory, an error when it is a
  file; otherwise the parent is made first and then \<open>p\<close> itself. The elements of the
  path are passed innermost first.
\<close>

fun mkdirAll :: "bool \<Rightarrow> string list \<Rightarrow> filesys \<Rightarrow> filesys option" where
  "mkdirAll r [] fs = (case fs (render r []) of Some Dir \<Rightarrow> Some fs | _ \<Rightarrow> None)"
| "mkdirAll r (e # up) fs =
     (case fs (render r (rev (e # up))) of
        Some Dir \<Rightarrow> Some fs
      | Some (File b) \<Rightarrow> None
      | None \<Rightarrow>
          (case mkdirAll r up fs of
             None \<Rightarrow> None
           | Some fs' \<Rightarrow> Some (fs'(render r (rev (e # up)) \<mapsto> Dir))))"

definition MkdirAll :: "filesys \<Rightarrow> path \<Rightarrow> filesys option" where
  "MkdirAll fs p = mkdirAll (rooted p) (rev (cleanElems p)) fs"

text \<open>The directory that holds \<open>p\<close>.\<close>

definition parentDir :: "path \<Rightarrow> path" where
  "parentDir p = Clean (p @ ''/..'')"

text \<open>
  \<open>os.OpenFile(p, os.O_CREATE|os.O_RDWR, mode)\<close>: a directory cannot be opened for
  writing; an existing file is opened as it is (there is no \<open>O_TRUNC\<close>); a missing file is
  created empty when the directory that holds it exists.
\<close>

definition OpenFile :: "filesys \<Rightarrow> path \<Rightarrow> filesys option" where
  "OpenFile fs p =
     (case fs p of
        Some Dir \<Rightarrow> None
      | Some (File b) \<Rightarrow> Some fs
      | None \<Rightarrow> (case fs (parentDir p) of Some Dir \<Rightarrow> Some (fs(p \<mapsto> File [])) | _ \<Rightarrow> None))"

text \<open>
  Writing \<open>w\<close> from offset 0 into an open file: the bytes beyond \<open>w\<close> that the file
  already held stay.
\<close>

definition writeFile :: "filesys \<Rightarrow> path \<Rightarrow> bytes \<Rightarrow> filesys" where
  "writeFile fs p w =
     (case fs p of
        Some (File old) \<Rightarrow> fs(p \<mapsto> File (w @ drop (length w) old))
      | _ \<Rightarrow> fs)"

section \<open>The tar reader\<close>

text \<open>
  \<open>archive/tar\<close> is Go's library. What the handler sees of an archive is the sequence of
  results of \<open>tr.Next()\<close>: a header together with the entry's body, or an error; after
  the last one \<open>Next\<close> returns \<open>io.EOF\<close>. The body is the bytes that reading the entry
  delivers and whether the reading then ends in \<open>io.EOF\<close> (\<open>True\<close>) or in a read error
  such as a truncated archive (\<open>False\<close>). Of the header the handler uses the name, the
  type flag and the mode.
\<close>

datatype Header = Header (hdrName: string) (hdrTypeflag: char) (hdrMode: int)

definition TypeReg :: char where
  "TypeReg = CHR ''0''"

definition TypeDir :: char where
  "TypeDir = CHR ''5''"

datatype tar_next = NextHdr Header bytes bool | NextErr

text \<open>
  \<open>io.CopyN(f, tr, n)\<close> on a body: the bytes written to \<open>f\<close>, and whether the error it
  returns is \<open>io.EOF\<close>. When the body has \<open>n\<close> bytes or more, \<open>n\<close> bytes are copied and the
  error is \<open>nil\<close>; otherwise the whole body is copied and the error is the one the
  reading ended in.
\<close>

definition CopyN :: "bytes \<Rightarrow> bool \<Rightarrow> nat \<Rightarrow> bytes \<times> bool" where
  "CopyN body clean n =
     (if n \<le> length body then (take n body, False) else (body, clean))"

definition copyLimit :: nat where
  "copyLimit = 200000000"

section \<open>JSON values\<close>

text \<open>
  What \<open>encoding/json\<close> decodes into an \<open>interface{}\<close>: \<open>nil\<close>, a bool, a number, a
  string, a slice or a map. A number is kept as its literal; the handler never reads one.
\<close>

datatype json =
    JNull
  | JBool bool
  | JNumber string
  | JString string
  | JArray "json list"
  | JObject "(string \<times> json) list"

section \<open>The environment\<close>

text \<open>
  The package variable \<open>tempDir\<close> is set outside this file, and the tar reader, the JSON
  decoder and the regular-expression compiler are Go's: all four are parameters.
  \<open>tarReader\<close> gives the results of \<open>Next\<close> for the bytes of a file, \<open>jsonDecode\<close> the
  value of a JSON text (\<open>None\<close> on a syntax error), \<open>regexpCompile\<close> the \<open>Match\<close>
  predicate of a pattern (\<open>None\<close> when the pattern does not compile).
\<close>

record env =
  tempDir :: string
  tarReader :: "bytes \<Rightarrow> tar_next list"
  jsonDecode :: "bytes \<Rightarrow> json option"
  regexpCompile :: "string \<Rightarrow> (string \<Rightarrow> bool) option"

section \<open>The archive extractor\<close>

text \<open>
  \<open>extractTar\<close> opens the archive and runs the loop over its entries, here
  \<open>extractEntries\<close>, which carries the two lists \<open>fl\<close> and \<open>dl\<close> and the file system.
  An archive is read as the file stood when it was opened. The loop calls \<open>extractTar\<close>
  again on every file it wrote whose path ends in \<open>layer.tar\<close>; since a file is written
  without truncation, nothing bounds that recursion, and the model counts the depth
  down from a fuel.
\<close>

fun extractTar ::
    "env \<Rightarrow> nat \<Rightarrow> path \<Rightarrow> filesys \<Rightarrow> (path list \<times> path list, filesys) outcome"
  and extractEntries ::
    "env \<Rightarrow> nat \<Rightarrow> tar_next list \<Rightarrow> path list \<Rightarrow> path list \<Rightarrow> filesys
       \<Rightarrow> (path list \<times> path list, filesys) outcome"
where
  "extractTar E 0 tarname fs = OutOfFuel"
| "extractTar E (Suc n) tarname fs =
     (case fs (Clean tarname) of
        None \<Rightarrow> Failed (Fatal ''os create failed'') fs
      | Some Dir \<Rightarrow> Failed (Fatal ''tar next failed'') fs
      | Some (File b) \<Rightarrow> extractEntries E n (tarReader E b) [] [] fs)"
| "extractEntries E n [] fl dl fs = Done (fl, dl) fs"
| "extractEntries E n (NextErr # rest) fl dl fs = Failed (Fatal ''tar next failed'') fs"
| "extractEntries E n (NextHdr hdr body clean # rest) fl dl fs =
     (case sanitizeArchivePath (tempDir E) (hdrName hdr) of
        Inl err \<Rightarrow> extractEntries E n rest fl dl fs
      | Inr tgt \<Rightarrow>
          if hdrTypeflag hdr = TypeDir then
            (if osStat fs tgt then extractEntries E n rest fl (dl @ [tgt]) fs
             else
               (case MkdirAll fs tgt of
                  None \<Rightarrow> Failed (Fatal ''tar mkdirall'') fs
                | Some fs1 \<Rightarrow> extractEntries E n rest fl (dl @ [tgt]) fs1))
          else if hdrTypeflag hdr = TypeReg then
            (case OpenFile fs (Clean tgt) of
               None \<Rightarrow> Failed (Fatal ''tar open file'') fs
             | Some fs1 \<Rightarrow>
                 (case CopyN body clean copyLimit of
                    (written, eof) \<Rightarrow>
                      if \<not> eof then
                        Failed (Fatal ''tar io.Copy()'') (writeFile fs1 (Clean tgt) written)
                      else if HasSuffix tgt ''layer.tar'' then
                        (case extractTar E n tgt (writeFile fs1 (Clean tgt) written) of
                           Done (ifl, idl) fs3 \<Rightarrow>
                             extractEntries E n rest (fl @ ifl) (dl @ idl) fs3
                         | Failed e fs3 \<Rightarrow> Failed e fs3
                         | OutOfFuel \<Rightarrow> OutOfFuel)
                      else
                        extractEntries E n rest (fl @ [tgt]) dl
                          (writeFile fs1 (Clean tgt) written)))
          else extractEntries E n rest fl dl fs)"

text \<open>
  One entry on its own, in the words of the specification: a name that is not sanitized
  adds nothing; a directory is made when it is not there and adds its path to the
  directory list; a regular file is written and adds its path to the file list, unless the
  path ends in \<open>layer.tar\<close>, when it adds the lists of the nested extraction instead; an
  entry of any other type adds nothing.
\<close>

definition extractEntry ::
    "env \<Rightarrow> nat \<Rightarrow> Header \<Rightarrow> bytes \<Rightarrow> bool \<Rightarrow> filesys
       \<Rightarrow> (path list \<times> path list, filesys) outcome" where
  "extractEntry E n hdr body clean fs =
     (case sanitizeArchivePath (tempDir E) (hdrName hdr) of
        Inl err \<Rightarrow> Done ([], []) fs
      | Inr tgt \<Rightarrow>
          if hdrTypeflag hdr = TypeDir then
            (if osStat fs tgt then Done ([], [tgt]) fs
             else
               (case MkdirAll fs tgt of
                  None \<Rightarrow> Failed (Fatal ''tar mkdirall'') fs
                | Some fs1 \<Rightarrow> Done ([], [tgt]) fs1))
          else if hdrTypeflag hdr = TypeReg then
            (case OpenFile fs (Clean tgt) of
               None \<Rightarrow> Failed (Fatal ''tar open file'') fs
             | Some fs1 \<Rightarrow>
                 (case CopyN body clean copyLimit of
                    (written, eof) \<Rightarrow>
                      if \<not> eof then
                        Failed (Fatal ''tar io.Copy()'') (writeFile fs1 (Clean tgt) written)
                      else if HasSuffix tgt ''layer.tar'' then
                        extractTar E n tgt (writeFile fs1 (Clean tgt) written)
                      else Done ([tgt], []) (writeFile fs1 (Clean tgt) written)))
          else Done ([], []) fs)"

section \<open>The manifest resolver\<close>

record ImageInfo =
  Name :: string
  RepoTags :: "string list"
  Arch :: string
  OS :: string
  FileList :: "string list"
  DirList :: "string list"

text \<open>
  \<open>checkForSpec\<close>: the pattern is compiled with \<open>regexp.MustCompile\<close>, which panics when
  it does not compile; the loop appends every name the compiled pattern matches.
\<close>

fun matchLoop :: "(string \<Rightarrow> bool) \<Rightarrow> string list \<Rightarrow> string list \<Rightarrow> string list" where
  "matchLoop re [] matches = matches"
| "matchLoop re (name # fl) matches =
     matchLoop re fl (if re name then matches @ [name] else matches)"

definition checkForSpec :: "env \<Rightarrow> string \<Rightarrow> string list \<Rightarrow> error + string list" where
  "checkForSpec E spec fl =
     (case regexpCompile E spec of
        None \<Rightarrow> Inl (Panic ''regexp: Compile failed'')
      | Some re \<Rightarrow> Inr (matchLoop re fl []))"

text \<open>
  \<open>getFileBytes\<close>: a failing \<open>os.Open\<close> is fatal inside the function; otherwise it
  returns what \<open>io.ReadAll\<close> returns, the bytes and whether there is an error (reading a
  directory is one).
\<close>

definition getFileBytes :: "filesys \<Rightarrow> path \<Rightarrow> error + bytes \<times> bool" where
  "getFileBytes fs fname =
     (case fs (Clean fname) of
        None \<Rightarrow> Inl (Fatal ''open file failed'')
      | Some Dir \<Rightarrow> Inr ([], True)
      | Some (File b) \<Rightarrow> Inr (b, False))"

text \<open>
  \<open>json.Unmarshal\<close> into a \<open>map[string]interface{}\<close> accepts an object, and \<open>null\<close>, which
  leaves the map \<open>nil\<close>; into a \<open>[]map[string]interface{}\<close> it accepts an array of
  such values, and \<open>null\<close>, which leaves the slice \<open>nil\<close>. Anything else, a syntax error
  included, is an error. A map is kept as its list of keys and values, a \<open>nil\<close> map as
  the empty list: reading a key of either that is not there gives \<open>nil\<close>.
\<close>

definition asMap :: "json \<Rightarrow> (string \<times> json) list option" where
  "asMap j = (case j of JObject kvs \<Rightarrow> Some kvs | JNull \<Rightarrow> Some [] | _ \<Rightarrow> None)"

definition UnmarshalMaps :: "env \<Rightarrow> bytes \<Rightarrow> (string \<times> json) list list option" where
  "UnmarshalMaps E barr =
     (case jsonDecode E barr of
        Some (JArray xs) \<Rightarrow> those (map asMap xs)
      | Some JNull \<Rightarrow> Some []
      | _ \<Rightarrow> None)"

definition UnmarshalMap :: "env \<Rightarrow> bytes \<Rightarrow> (string \<times> json) list option" where
  "UnmarshalMap E barr =
     (case jsonDecode E barr of
        Some j \<Rightarrow> asMap j
      | None \<Rightarrow> None)"

text \<open>
  The type assertions \<open>x.(string)\<close> and \<open>x.([]interface{})\<close> on what a map lookup
  returns: \<open>None\<close> stands for the panic.
\<close>

definition assertString :: "json option \<Rightarrow> string option" where
  "assertString x = (case x of Some (JString s) \<Rightarrow> Some s | _ \<Rightarrow> None)"

definition assertSlice :: "json option \<Rightarrow> json list option" where
  "assertSlice x = (case x of Some (JArray xs) \<Rightarrow> Some xs | _ \<Rightarrow> None)"

text \<open>The loop over \<open>RepoTags\<close>: every tag is asserted to be a string and appended.\<close>

fun appendTags :: "ImageInfo \<Rightarrow> json list \<Rightarrow> (unit, ImageInfo) outcome" where
  "appendTags img [] = Done () img"
| "appendTags img (tag # tags) =
     (case assertString (Some tag) of
        None \<Rightarrow> Failed (Panic ''interface conversion'') img
      | Some s \<Rightarrow> appendTags (img\<lparr>RepoTags := RepoTags img @ [s]\<rparr>) tags)"

text \<open>
  \<open>readManifest\<close> works on the \<open>ImageInfo\<close> behind the pointer \<open>img\<close>: the state of the
  outcome is that record, as it stands when the function returns or the process stops.
\<close>

definition readManifest ::
    "env \<Rightarrow> filesys \<Rightarrow> ImageInfo \<Rightarrow> path \<Rightarrow> (unit, ImageInfo) outcome" where
  "readManifest E fs img manifest =
     (case getFileBytes fs manifest of
        Inl e \<Rightarrow> Failed e img
      | Inr (barr, err) \<Rightarrow>
          if err then Failed (Fatal ''manifest read failed'') img
          else
            (case UnmarshalMaps E barr of
               None \<Rightarrow> Failed (Fatal ''manifest json unmarshal failed'') img
             | Some manres \<Rightarrow>
                 if length manres \<noteq> 1 then
                   Failed (Fatal ''expecting one config in manifest!'') img
                 else
                   (case assertString (map_of (manres ! 0) ''Config'') of
                      None \<Rightarrow> Failed (Panic ''interface conversion'') img
                    | Some c \<Rightarrow>
                        (case getFileBytes fs (Join (tempDir E) c) of
                           Inl e \<Rightarrow> Failed e img
                         | Inr (barr2, err2) \<Rightarrow>
                             if err2 then Failed (Fatal ''config read failed'') img
                             else
                               (case UnmarshalMap E barr2 of
                                  None \<Rightarrow> Failed (Fatal ''config json unmarshal failed'') img
                                | Some cfgres \<Rightarrow>
                                    (case assertString (map_of cfgres ''architecture'') of
                                       None \<Rightarrow> Failed (Panic ''interface conversion'') img
                                     | Some a \<Rightarrow>
                                         (case assertString (map_of cfgres ''os'') of
                                            None \<Rightarrow>
                                              Failed (Panic ''interface conversion'')
                                                (img\<lparr>Arch := a\<rparr>)
                                          | Some os \<Rightarrow>
                                              (case assertSlice (map_of (manres ! 0) ''RepoTags'') of
                                                 None \<Rightarrow>
                                                   Failed (Panic ''interface conversion'')
                                                     (img\<lparr>Arch := a, OS := os\<rparr>)
                                               | Some tags \<Rightarrow>
                                                   appendTags (img\<lparr>Arch := a, OS := os\<rparr>) tags))))))))"

definition getImageInfo :: "env \<Rightarrow> filesys \<Rightarrow> ImageInfo \<Rightarrow> (unit, ImageInfo) outcome" where
  "getImageInfo E fs img =
     (case checkForSpec E (Join (tempDir E) ''manifest.json'') (FileList img) of
        Inl e \<Rightarrow> Failed e img
      | Inr matches \<Rightarrow>
          if length matches \<noteq> 1 then Failed (Fatal ''expecting one manifest.json!'') img
          else readManifest E fs img (matches ! 0))"

section \<open>The image inspector\<close>


text \<open>
  The config record that a manifest file leads to, in the words of the specification:
  the manifest is read and parsed, it holds exactly one record, the \<open>Config\<close> field of
  that record is a string, and the file it names under the extraction root is read and
  parsed as a config record.
\<close>

definition configOf :: "env \<Rightarrow> filesys \<Rightarrow> path \<Rightarrow> (string \<times> json) list option" where
  "configOf E fs manifest =
     (case getFileBytes fs manifest of
        Inr (barr, False) \<Rightarrow>
          (case UnmarshalMaps E barr of
             Some [r] \<Rightarrow>
               (case assertString (map_of r ''Config'') of
                  Some c \<Rightarrow>
                    (case getFileBytes fs (Join (tempDir E) c) of
                       Inr (barr2, False) \<Rightarrow> UnmarshalMap E barr2
                     | _ \<Rightarrow> None)
                | None \<Rightarrow> None)
           | _ \<Rightarrow> None)
      | _ \<Rightarrow> None)"

section \<open>Plain patterns\<close>

text \<open>
  \<open>regexp\<close> is Go's library and stays a parameter. For the patterns the handler builds
  from an ordinary path (its bytes are ASCII and none is an operator of the syntax but the
  dot) the package documentation fixes what \<open>Match\<close> does on an ASCII name: the pattern
  may match anywhere in the name, a dot matches any character but a newline (the flag
  \<open>s\<close> is off by default), and every other character matches itself.
\<close>

definition isPlain :: "string \<Rightarrow> bool" where
  "isPlain p = list_all (\<lambda>c. c \<notin> set (CHR 0x5C # ''+*?()|[]{}^$'')) p"

definition charMatch :: "char \<Rightarrow> char \<Rightarrow> bool" where
  "charMatch q c = (if q = CHR ''.'' then c \<noteq> CHR 0x0A else c = q)"

fun matchHere :: "string \<Rightarrow> string \<Rightarrow> bool" where
  "matchHere [] s = True"
| "matchHere (p # ps) [] = False"
| "matchHere (p # ps) (c # cs) = (charMatch p c \<and> matchHere ps cs)"

fun plainMatch :: "string \<Rightarrow> string \<Rightarrow> bool" where
  "plainMatch p [] = matchHere p []"
| "plainMatch p (c # cs) = (matchHere p (c # cs) \<or> plainMatch p cs)"

section \<open>A small image\<close>

text \<open>
  An environment and a file system to run the handler on. The stand-ins for the three
  libraries know the files of this image only: a transport archive with a manifest, a
  config file and one layer that holds \<open>etc/hostname\<close>; an archive with an entry that
  climbs out of the extraction root; one with an entry aimed at a sibling of the root;
  one with an entry as large as the copy limit; and one that writes two layers, one after
  the other, to the same path in a sibling of the root. In that last archive a header
  block stands for itself: the first layer \<open>Ha\<close> is the header of an empty file \<open>a\<close> and
  nothing else (the reader takes the end of the file for the end of the archive), the
  second layer \<open>HcHz\<close> is the header of a file \<open>c\<close> followed by its content, which reads
  as the header of an empty file \<open>z\<close>. The archive \<open>HH\<close>, last, holds one entry
  \<open>layer.tar\<close> with the body \<open>H\<close>.
\<close>

definition bigBody :: bytes where
  "bigBody = replicate copyLimit (CHR ''a'')"

definition demoTar :: "bytes \<Rightarrow> tar_next list" where
  "demoTar b =
     (if b = ''IMAGE'' then
        [NextHdr (Header ''manifest.json'' TypeReg 420) ''MANIFEST'' True,
         NextHdr (Header ''cfg.json'' TypeReg 420) ''CONFIG'' True,
         NextHdr (Header ''l1/'' TypeDir 493) [] True,
         NextHdr (Header ''l1/layer.tar'' TypeReg 420) ''LAYER'' True]
      else if b = ''LAYER'' then
        [NextHdr (Header ''etc/'' TypeDir 493) [] True,
         NextHdr (Header ''etc/hostname'' TypeReg 420) ''host'' True]
      else if b = ''CLIMB'' then
        [NextHdr (Header ''../../etc/passwd'' TypeReg 420) ''root'' True,
         NextHdr (Header ''ok.txt'' TypeReg 420) ''fine'' True]
      else if b = ''SLIP'' then
        [NextHdr (Header ''../karmor-evil/'' TypeDir 493) [] True,
         NextHdr (Header ''../karmor-evil/x'' TypeReg 420) ''data'' True]
      else if b = ''BOMB'' then
        [NextHdr (Header ''big'' TypeReg 420) bigBody True]
      else if b = ''HH'' then
        [NextHdr (Header ''layer.tar'' TypeReg 420) ''H'' True]
      else if b = ''TWICE'' then
        [NextHdr (Header ''../karmor-evil/'' TypeDir 493) [] True,
         NextHdr (Header ''../karmor-evil/layer.tar'' TypeReg 420) ''Ha'' True,
         NextHdr (Header ''../karmor-evil/layer.tar'' TypeReg 420) ''HcHz'' True]
      else if b = ''Ha'' then
        [NextHdr (Header ''a'' TypeReg 420) [] True]
      else if b = ''HcHz'' then
        [NextHdr (Header ''c'' TypeReg 420) ''Hz'' True]
      else if b = ''HaHz'' then
        [NextHdr (Header ''a'' TypeReg 420) [] True,
         NextHdr (Header ''z'' TypeReg 420) [] True]
      else [NextErr])"

definition demoJson :: "bytes \<Rightarrow> json option" where
  "demoJson b =
     (if b = ''MANIFEST'' then
        Some (JArray [JObject [(''Config'', JString ''cfg.json''),
                               (''RepoTags'', JArray [JString ''demo:latest''])]])
      else if b = ''CONFIG'' then
        Some (JObject [(''architecture'', JString ''amd64''), (''os'', JString ''linux'')])
      else if b = ''TWO'' then
        Some (JArray [JObject [(''Config'', JString ''cfg.json'')],
                      JObject [(''Config'', JString ''cfg.json'')]])
      else if b = ''NOARCH'' then
        Some (JObject [(''os'', JString ''linux'')])
      else None)"

text \<open>
  The stand-in for \<open>regexp.Compile\<close> compiles the plain patterns and refuses every other
  pattern, as Go refuses the one used below, \<open>/tmp/karmor(\<close>, whose parenthesis is never
  closed.
\<close>

definition demoRegexp :: "string \<Rightarrow> (string \<Rightarrow> bool) option" where
  "demoRegexp p = (if isPlain p then Some (plainMatch p) else None)"

definition demoEnv :: env where
  "demoEnv =
     \<lparr>tempDir = ''/tmp/karmor'', tarReader = demoTar, jsonDecode = demoJson,
      regexpCompile = demoRegexp\<rparr>"

definition demoFs :: "bytes \<Rightarrow> filesys" where
  "demoFs b =
     [''/'' \<mapsto> Dir, ''/tmp'' \<mapsto> Dir, ''/tmp/karmor'' \<mapsto> Dir,
      ''/tmp/karmor/image.tar'' \<mapsto> File b]"

section \<open>The inventory, as the specification words it\<close>

text \<open>
  The lists of an archive are the lists of its entries, one after the other in the order
  of the archive: nothing is sorted and nothing is dropped. The first failure ends the
  extraction.
\<close>

fun inventory ::
    "env \<Rightarrow> nat \<Rightarrow> tar_next list \<Rightarrow> filesys \<Rightarrow> (path list \<times> path list, filesys) outcome" where
  "inventory E n [] fs = Done ([], []) fs"
| "inventory E n (NextErr # rest) fs = Failed (Fatal ''tar next failed'') fs"
| "inventory E n (NextHdr hdr body clean # rest) fs =
     (case extractEntry E n hdr body clean fs of
        Done (f1, d1) fs1 \<Rightarrow>
          (case inventory E n rest fs1 of
             Done (f2, d2) fs2 \<Rightarrow> Done (f1 @ f2, d1 @ d2) fs2
           | Failed e s \<Rightarrow> Failed e s
           | OutOfFuel \<Rightarrow> OutOfFuel)
      | Failed e s \<Rightarrow> Failed e s
      | OutOfFuel \<Rightarrow> OutOfFuel)"

section \<open>The paths an extraction can reach\<close>

text \<open>
  The paths that \<open>MkdirAll\<close> may look at or make for a path: the path itself and the
  directories above it, up to the root (or the working directory).
\<close>

fun chain :: "bool \<Rightarrow> string list \<Rightarrow> path list" where
  "chain r [] = [render r []]"
| "chain r (e # up) = render r (rev (e # up)) # chain r up"

text \<open>
  The paths of the file system that the extraction into the root of \<open>E\<close> can read or
  write on behalf of an entry: for every name that \<open>sanitizeArchivePath\<close> lets through,
  the sanitized path, the directory that holds it, and the directories above it.
\<close>

definition admitted :: "env \<Rightarrow> path set" where
  "admitted E =
     {p. \<exists>name v. sanitizeArchivePath (tempDir E) name = Inr v \<and>
           (p = v \<or> p = Clean v \<or> p = parentDir (Clean v) \<or>
            p \<in> set (chain (rooted v) (rev (cleanElems v))))}"


text \<open>What a run gives back, the file system left aside.\<close>

definition resultOf :: "('a, 's) outcome \<Rightarrow> (error + 'a) option" where
  "resultOf out =
     (case out of Done r s \<Rightarrow> Some (Inr r) | Failed e s \<Rightarrow> Some (Inl e) | OutOfFuel \<Rightarrow> None)"

text \<open>
  Two runs that end alike: the same lists or the same failure, and file systems that
  agree on the paths of \<open>S\<close>.
\<close>

definition sameRun ::
    "path set \<Rightarrow> ('a, filesys) outcome \<Rightarrow> ('a, filesys) outcome \<Rightarrow> bool" where
  "sameRun S o1 o2 =
     (case o1 of
        Done r f \<Rightarrow> (\<exists>g. o2 = Done r g \<and> (\<forall>p\<in>S. f p = g p))
      | Failed e f \<Rightarrow> (\<exists>g. o2 = Failed e g \<and> (\<forall>p\<in>S. f p = g p))
      | OutOfFuel \<Rightarrow> o2 = OutOfFuel)"

section \<open>Cleaned element lists\<close>



section \<open>The loop, entry by entry\<close>

lemma extractEntries_step:
  "extractEntries E n (NextHdr hdr body clean # rest) fl dl fs =
     (case extractEntry E n hdr body clean fs of
        Done (f1, d1) fs1 \<Rightarrow> extractEntries E n rest (fl @ f1) (dl @ d1) fs1
      | Failed e s \<Rightarrow> Failed e s
      | OutOfFuel \<Rightarrow> OutOfFuel)"
proof (cases "sanitizeArchivePath (tempDir E) (hdrName hdr)")
  case (Inl a)
  then show ?thesis by (simp add: extractEntry_def)
next
  case (Inr tgt)
  show ?thesis
  proof (cases "hdrTypeflag hdr = TypeDir")
    case True
    then show ?thesis using Inr
      by (simp add: extractEntry_def split: option.split)
  next
    case False
    note nd = False
    show ?thesis
    proof (cases "hdrTypeflag hdr = TypeReg")
      case False
      then show ?thesis using Inr nd by (simp add: extractEntry_def)
    next
      case True
      show ?thesis
      proof (cases "OpenFile fs (Clean tgt)")
        case None
        then show ?thesis using Inr nd True by (simp add: extractEntry_def)
      next
        case (Some fs1)
        obtain w eof where c: "CopyN body clean copyLimit = (w, eof)"
          by (cases "CopyN body clean copyLimit")
        show ?thesis using Inr nd True Some c
          by (simp add: extractEntry_def)
      qed
    qed
  qed
qed

lemma extractEntries_append:
  "extractEntries E n (xs @ ys) fl dl fs =
     (case extractEntries E n xs fl dl fs of
        Done (f, d) fs1 \<Rightarrow> extractEntries E n ys f d fs1
      | Failed e s \<Rightarrow> Failed e s
      | OutOfFuel \<Rightarrow> OutOfFuel)"
proof (induction xs arbitrary: fl dl fs)
  case Nil
  then show ?case by simp
next
  case (Cons x xs)
  show ?case
  proof (cases x)
    case NextErr
    then show ?thesis by simp
  next
    case (NextHdr h b c)
    show ?thesis
      unfolding NextHdr append_Cons extractEntries_step
      by (cases "extractEntry E n h b c fs")
         (auto simp del: extractEntries.simps(3) simp add: Cons.IH)
  qed
qed

lemmas path_defs =
  sanitizeArchivePath_def Join_def Clean_def cleanElems_def cleanElem_def render_def
  rooted_def HasPrefix_def HasSuffix_def

lemmas os_defs =
  osStat_def MkdirAll_def parentDir_def OpenFile_def writeFile_def CopyN_def copyLimit_def
  TypeReg_def TypeDir_def

section \<open>Entries that are not sanitized\<close>

text \<open>
  C6. An entry whose name \<open>sanitizeArchivePath\<close> rejects is skipped and nothing else:
  wherever it stands in the archive, the extraction ends exactly as the extraction of the
  archive without that entry does, with the same lists, the same file system (so no file
  and no directory was made for it) and the same failure, if a later entry fails. The
  rejection itself never stops the loop.
\<close>

theorem rejected_entry_is_skipped:
  assumes "sanitizeArchivePath (tempDir E) (hdrName hdr) = Inl err"
  shows "extractEntries E n (pre @ NextHdr hdr body clean # post) fl dl fs =
         extractEntries E n (pre @ post) fl dl fs"
proof -
  have e: "extractEntry E n hdr body clean s = Done ([], []) s" for s
    using assms by (simp add: extractEntry_def)
  show ?thesis
    unfolding extractEntries_append[of E n pre] extractEntries_step e
    by (simp split: outcome.split)
qed

theorem rejected_entry_is_skipped_witness:
  "sanitizeArchivePath (tempDir demoEnv) (hdrName (Header ''../../etc/passwd'' TypeReg 420)) =
     Inl ''content filepath is tainted: ../../etc/passwd'' \<and>
   extractEntries demoEnv 0
     ([] @ NextHdr (Header ''../../etc/passwd'' TypeReg 420) ''root'' True #
        [NextHdr (Header ''ok.txt'' TypeReg 420) ''fine'' True])
     [] [] (demoFs ''CLIMB'') =
   Done ([''/tmp/karmor/ok.txt''], [])
     ((demoFs ''CLIMB'')(''/tmp/karmor/ok.txt'' \<mapsto> File ''fine''))"
proof -
  have h: "sanitizeArchivePath (tempDir demoEnv)
             (hdrName (Header ''../../etc/passwd'' TypeReg 420)) =
           Inl ''content filepath is tainted: ../../etc/passwd''"
    by (simp add: demoEnv_def path_defs)
  have r: "extractEntries demoEnv 0 ([] @ [NextHdr (Header ''ok.txt'' TypeReg 420) ''fine'' True])
             [] [] (demoFs ''CLIMB'') =
           Done ([''/tmp/karmor/ok.txt''], [])
             ((demoFs ''CLIMB'')(''/tmp/karmor/ok.txt'' \<mapsto> File ''fine''))"
    by (simp add: demoEnv_def path_defs demoFs_def os_defs)
  from h rejected_entry_is_skipped [OF h, of 0 "[]" "''root''" True
      "[NextHdr (Header ''ok.txt'' TypeReg 420) ''fine'' True]" "[]" "[]" "demoFs ''CLIMB''"] r
  show ?thesis by (simp only:)
qed

section \<open>The copy limit\<close>

text \<open>
  C4. Take a regular-file entry whose name is sanitized to \<open>tgt\<close> and whose file could be
  opened. When its body has \<open>copyLimit\<close> bytes or more, the loop stops there with the
  fatal error of the copy: the outcome is a failure, which holds no file list at all, and
  the file on disk holds the first \<open>copyLimit\<close> bytes. When the body is shorter and is read
  to its end, \<open>io.CopyN\<close> ends in \<open>io.EOF\<close> and the loop goes on: into the nested
  archive when the path ends in \<open>layer.tar\<close>, else with the path appended to the file list.
  When the body is shorter and the reading of it ends in an error, the copy ends in that
  error and the loop stops with the same fatal error.
\<close>

theorem copy_limit_is_fatal:
  assumes "sanitizeArchivePath (tempDir E) (hdrName hdr) = Inr tgt"
    and "hdrTypeflag hdr = TypeReg"
    and "OpenFile fs (Clean tgt) = Some fs1"
  shows "(copyLimit \<le> length body \<longrightarrow>
            extractEntries E n (NextHdr hdr body clean # rest) fl dl fs =
            Failed (Fatal ''tar io.Copy()'') (writeFile fs1 (Clean tgt) (take copyLimit body))) \<and>
         (length body < copyLimit \<and> clean \<longrightarrow>
            CopyN body clean copyLimit = (body, True) \<and>
            extractEntries E n (NextHdr hdr body clean # rest) fl dl fs =
            (if HasSuffix tgt ''layer.tar'' then
               (case extractTar E n tgt (writeFile fs1 (Clean tgt) body) of
                  Done (ifl, idl) fs3 \<Rightarrow> extractEntries E n rest (fl @ ifl) (dl @ idl) fs3
                | Failed e fs3 \<Rightarrow> Failed e fs3
                | OutOfFuel \<Rightarrow> OutOfFuel)
             else extractEntries E n rest (fl @ [tgt]) dl (writeFile fs1 (Clean tgt) body))) \<and>
         (length body < copyLimit \<and> \<not> clean \<longrightarrow>
            CopyN body clean copyLimit = (body, False) \<and>
            extractEntries E n (NextHdr hdr body clean # rest) fl dl fs =
            Failed (Fatal ''tar io.Copy()'') (writeFile fs1 (Clean tgt) body))"
proof -
  have nd: "hdrTypeflag hdr \<noteq> TypeDir"
    using assms(2) by (simp add: TypeReg_def TypeDir_def)
  show ?thesis
    using assms nd by (simp add: CopyN_def)
qed

theorem copy_limit_is_fatal_witness:
  "extractEntries demoEnv 0 (NextHdr (Header ''big'' TypeReg 420) bigBody True # []) [] []
     (demoFs ''BOMB'') =
   Failed (Fatal ''tar io.Copy()'') ((demoFs ''BOMB'')(''/tmp/karmor/big'' \<mapsto> File bigBody)) \<and>
   extractEntries demoEnv 0 (NextHdr (Header ''ok.txt'' TypeReg 420) ''fine'' True # []) [] []
     (demoFs ''BOMB'') =
   Done ([''/tmp/karmor/ok.txt''], [])
     ((demoFs ''BOMB'')(''/tmp/karmor/ok.txt'' \<mapsto> File ''fine''))"
proof -
  let ?fs = "demoFs ''BOMB''"
  have s1: "sanitizeArchivePath (tempDir demoEnv) (hdrName (Header ''big'' TypeReg 420)) =
            Inr ''/tmp/karmor/big''"
    by (simp add: demoEnv_def path_defs)
  have t: "hdrTypeflag (Header ''big'' TypeReg 420) = TypeReg" by simp
  have o1: "OpenFile ?fs (Clean ''/tmp/karmor/big'') =
            Some (?fs(''/tmp/karmor/big'' \<mapsto> File []))"
    by (simp add: demoFs_def path_defs os_defs)
  have big: "copyLimit \<le> length bigBody" by (simp add: bigBody_def)
  have c1: "Clean ''/tmp/karmor/big'' = ''/tmp/karmor/big''" by (simp add: path_defs)
  have a: "extractEntries demoEnv 0 (NextHdr (Header ''big'' TypeReg 420) bigBody True # [])
             [] [] ?fs =
           Failed (Fatal ''tar io.Copy()'') (?fs(''/tmp/karmor/big'' \<mapsto> File bigBody))"
    using copy_limit_is_fatal [OF s1 t o1, of bigBody 0 True "[]" "[]" "[]"] big
    by (simp add: c1 writeFile_def bigBody_def)
  have s2: "sanitizeArchivePath (tempDir demoEnv) (hdrName (Header ''ok.txt'' TypeReg 420)) =
            Inr ''/tmp/karmor/ok.txt''"
    by (simp add: demoEnv_def path_defs)
  have t2: "hdrTypeflag (Header ''ok.txt'' TypeReg 420) = TypeReg" by simp
  have c2: "Clean ''/tmp/karmor/ok.txt'' = ''/tmp/karmor/ok.txt''" by (simp add: path_defs)
  have o2: "OpenFile ?fs (Clean ''/tmp/karmor/ok.txt'') =
            Some (?fs(''/tmp/karmor/ok.txt'' \<mapsto> File []))"
    by (simp add: demoFs_def path_defs os_defs)
  have small: "length ''fine'' < copyLimit \<and> True" by (simp add: copyLimit_def)
  have ns: "\<not> HasSuffix ''/tmp/karmor/ok.txt'' ''layer.tar''" by (simp add: HasSuffix_def)
  have b: "extractEntries demoEnv 0 (NextHdr (Header ''ok.txt'' TypeReg 420) ''fine'' True # [])
             [] [] ?fs =
           Done ([''/tmp/karmor/ok.txt''], []) (?fs(''/tmp/karmor/ok.txt'' \<mapsto> File ''fine''))"
    using copy_limit_is_fatal [OF s2 t2 o2, of "''fine''" 0 True "[]" "[]" "[]"] small ns
    by (simp add: c2 writeFile_def)
  from a b show ?thesis by (simp only:)
qed

text \<open>
  Without those conditions the entry's size decides nothing. An entry as large as the
  limit whose name is rejected is skipped like any rejected entry, and the extraction
  returns; an entry far below the limit whose body is cut short in the archive stops the
  extraction, since the copy then ends in a read error and not in \<open>io.EOF\<close>.
\<close>

theorem copy_limit_counterexample:
  "copyLimit \<le> length bigBody \<and>
   extractEntries demoEnv 0
     [NextHdr (Header ''../../etc/passwd'' TypeReg 420) bigBody True,
      NextHdr (Header ''ok.txt'' TypeReg 420) ''fine'' True] [] [] (demoFs ''BOMB'') =
   Done ([''/tmp/karmor/ok.txt''], [])
     ((demoFs ''BOMB'')(''/tmp/karmor/ok.txt'' \<mapsto> File ''fine'')) \<and>
   length ''cut'' < copyLimit \<and>
   extractEntries demoEnv 0
     [NextHdr (Header ''short.txt'' TypeReg 420) ''cut'' False,
      NextHdr (Header ''ok.txt'' TypeReg 420) ''fine'' True] [] [] (demoFs ''BOMB'') =
   Failed (Fatal ''tar io.Copy()'')
     ((demoFs ''BOMB'')(''/tmp/karmor/short.txt'' \<mapsto> File ''cut''))"
proof -
  have a: "copyLimit \<le> length bigBody" by (simp add: bigBody_def)
  have b: "extractEntries demoEnv 0
     [NextHdr (Header ''../../etc/passwd'' TypeReg 420) bigBody True,
      NextHdr (Header ''ok.txt'' TypeReg 420) ''fine'' True] [] [] (demoFs ''BOMB'') =
   Done ([''/tmp/karmor/ok.txt''], [])
     ((demoFs ''BOMB'')(''/tmp/karmor/ok.txt'' \<mapsto> File ''fine''))"
    by (simp add: demoEnv_def path_defs demoFs_def os_defs)
  have c: "length ''cut'' < copyLimit" by (simp add: copyLimit_def)
  have d: "extractEntries demoEnv 0
     [NextHdr (Header ''short.txt'' TypeReg 420) ''cut'' False,
      NextHdr (Header ''ok.txt'' TypeReg 420) ''fine'' True] [] [] (demoFs ''BOMB'') =
   Failed (Fatal ''tar io.Copy()'')
     ((demoFs ''BOMB'')(''/tmp/karmor/short.txt'' \<mapsto> File ''cut''))"
    by (simp add: demoEnv_def path_defs demoFs_def os_defs)
  from a b c d show ?thesis by (simp only: simp_thms)
qed

section \<open>The returned lists\<close>

lemma extractEntries_inventory:
  "extractEntries E n xs fl dl fs =
     (case inventory E n xs fs of
        Done (f, d) fs1 \<Rightarrow> Done (fl @ f, dl @ d) fs1
      | Failed e s \<Rightarrow> Failed e s
      | OutOfFuel \<Rightarrow> OutOfFuel)"
proof (induction xs arbitrary: fl dl fs)
  case Nil
  then show ?case by simp
next
  case (Cons x xs)
  show ?case
  proof (cases x)
    case NextErr
    then show ?thesis by simp
  next
    case (NextHdr h b c)
    show ?thesis
    proof (cases "extractEntry E n h b c fs")
      case (Done r fs1)
      obtain f1 d1 where r: "r = (f1, d1)" by (cases r)
      show ?thesis
        unfolding NextHdr extractEntries_step inventory.simps Done r
        by (simp add: Cons.IH split: outcome.split)
    next
      case (Failed e s)
      then show ?thesis unfolding NextHdr extractEntries_step by simp
    next
      case OutOfFuel
      then show ?thesis unfolding NextHdr extractEntries_step by simp
    qed
  qed
qed

lemma extractTar_inventory:
  "extractTar E (Suc n) tarname fs =
     (case fs (Clean tarname) of
        None \<Rightarrow> Failed (Fatal ''os create failed'') fs
      | Some Dir \<Rightarrow> Failed (Fatal ''tar next failed'') fs
      | Some (File b) \<Rightarrow> inventory E n (tarReader E b) fs)"
proof -
  have "extractEntries E n ys [] [] fs = inventory E n ys fs" for ys
    by (simp add: extractEntries_inventory [of E n ys "[]" "[]" fs]
          split: outcome.split prod.split)
  then show ?thesis by (simp split: option.split node.split)
qed


section \<open>Layer archives\<close>







section \<open>The manifest and the config record\<close>

lemma matchLoop_filter: "matchLoop re fl acc = acc @ filter re fl"
  by (induction fl arbitrary: acc) auto

lemma checkForSpec_filter:
  "regexpCompile E spec = Some re \<Longrightarrow> checkForSpec E spec fl = Inr (filter re fl)"
  by (simp add: checkForSpec_def matchLoop_filter)

lemma appendTags_keeps:
  "appendTags i tags = Done u i' \<Longrightarrow> Arch i' = Arch i \<and> OS i' = OS i"
  "appendTags i tags = Failed e i' \<Longrightarrow> Arch i' = Arch i \<and> OS i' = OS i"
  "appendTags i tags \<noteq> OutOfFuel"
  by (induction tags arbitrary: i; auto split: option.splits)+

lemma readManifest_no_config:
  assumes "configOf E fs manifest = None"
  shows "\<exists>e. readManifest E fs img manifest = Failed e img"
proof (cases "getFileBytes fs manifest")
  case (Inl e)
  then show ?thesis by (simp add: readManifest_def)
next
  case (Inr r)
  obtain barr err where r: "r = (barr, err)" by (cases r)
  show ?thesis
  proof (cases err)
    case True
    then show ?thesis using Inr r by (simp add: readManifest_def)
  next
    case False
    note ne = False
    show ?thesis
    proof (cases "UnmarshalMaps E barr")
      case None
      then show ?thesis using Inr r ne by (simp add: readManifest_def)
    next
      case (Some manres)
      show ?thesis
      proof (cases "length manres = 1")
        case False
        then show ?thesis using Inr r ne Some by (simp add: readManifest_def)
      next
        case True
        then obtain rc where m: "manres = [rc]"
          by (cases manres) auto
        show ?thesis
        proof (cases "assertString (map_of rc ''Config'')")
          case None
          then show ?thesis using Inr r ne Some m by (simp add: readManifest_def)
        next
          case (Some c)
          note c = Some
          show ?thesis
          proof (cases "getFileBytes fs (Join (tempDir E) c)")
            case (Inl e)
            then show ?thesis using Inr r ne \<open>UnmarshalMaps E barr = Some manres\<close> m c
              by (simp add: readManifest_def)
          next
            case (Inr r2)
            obtain b2 e2 where r2: "r2 = (b2, e2)" by (cases r2)
            show ?thesis
              using assms \<open>getFileBytes fs manifest = Inr r\<close> r ne
                \<open>UnmarshalMaps E barr = Some manres\<close> m c Inr r2
              by (cases e2) (simp_all add: readManifest_def configOf_def)
          qed
        qed
      qed
    qed
  qed
qed

lemma readManifest_config:
  assumes "configOf E fs manifest = Some cfg"
  shows "\<exists>rc. readManifest E fs img manifest =
     (case assertString (map_of cfg ''architecture'') of
        None \<Rightarrow> Failed (Panic ''interface conversion'') img
      | Some a \<Rightarrow>
          (case assertString (map_of cfg ''os'') of
             None \<Rightarrow> Failed (Panic ''interface conversion'') (img\<lparr>Arch := a\<rparr>)
           | Some os \<Rightarrow>
               (case assertSlice (map_of rc ''RepoTags'') of
                  None \<Rightarrow> Failed (Panic ''interface conversion'') (img\<lparr>Arch := a, OS := os\<rparr>)
                | Some tags \<Rightarrow> appendTags (img\<lparr>Arch := a, OS := os\<rparr>) tags)))"
proof -
  from assms obtain barr rc c barr2 where
    a: "getFileBytes fs manifest = Inr (barr, False)" and
    b: "UnmarshalMaps E barr = Some [rc]" and
    c: "assertString (map_of rc ''Config'') = Some c" and
    d: "getFileBytes fs (Join (tempDir E) c) = Inr (barr2, False)" and
    e: "UnmarshalMap E barr2 = Some cfg"
    by (auto simp: configOf_def split: sum.splits prod.splits bool.splits option.splits list.splits)
  show ?thesis
    by (rule exI[of _ rc]) (simp add: readManifest_def a b c d e split: option.split)
qed


text \<open>
  C3. When the pattern compiles and the number of paths of the file list that it matches
  is not one, \<open>getImageInfo\<close> stops with the fatal error \<open>expecting one manifest.json!\<close>;
  when the manifest file is read and parsed and the number of its records is not one,
  \<open>readManifest\<close>, and \<open>getImageInfo\<close> through it, stops with the fatal error
  \<open>expecting one config in manifest!\<close>. In each case the \<open>ImageInfo\<close> is left exactly as it
  was: no field has been set.
\<close>

theorem cardinality_errors_set_nothing:
  "(regexpCompile E (Join (tempDir E) ''manifest.json'') = Some re \<and>
    length (filter re (FileList img)) \<noteq> 1 \<longrightarrow>
      getImageInfo E fs img = Failed (Fatal ''expecting one manifest.json!'') img) \<and>
   (getFileBytes fs manifest = Inr (barr, False) \<and> UnmarshalMaps E barr = Some manres \<and>
    length manres \<noteq> 1 \<longrightarrow>
      readManifest E fs img manifest = Failed (Fatal ''expecting one config in manifest!'') img) \<and>
   (regexpCompile E (Join (tempDir E) ''manifest.json'') = Some re \<and>
    filter re (FileList img) = [manifest] \<and>
    getFileBytes fs manifest = Inr (barr, False) \<and> UnmarshalMaps E barr = Some manres \<and>
    length manres \<noteq> 1 \<longrightarrow>
      getImageInfo E fs img = Failed (Fatal ''expecting one config in manifest!'') img)"
  by (simp add: getImageInfo_def checkForSpec_filter readManifest_def)

theorem cardinality_errors_set_nothing_witness:
  "getImageInfo demoEnv (demoFs ''IMAGE'')
     \<lparr>Name = ''demo'', RepoTags = [], Arch = [], OS = [], FileList = [], DirList = []\<rparr> =
   Failed (Fatal ''expecting one manifest.json!'')
     \<lparr>Name = ''demo'', RepoTags = [], Arch = [], OS = [], FileList = [], DirList = []\<rparr> \<and>
   getImageInfo demoEnv ((demoFs ''IMAGE'')(''/tmp/karmor/manifest.json'' \<mapsto> File ''TWO''))
     \<lparr>Name = ''demo'', RepoTags = [], Arch = [], OS = [],
      FileList = [''/tmp/karmor/manifest.json''], DirList = []\<rparr> =
   Failed (Fatal ''expecting one config in manifest!'')
     \<lparr>Name = ''demo'', RepoTags = [], Arch = [], OS = [],
      FileList = [''/tmp/karmor/manifest.json''], DirList = []\<rparr>"
proof -
  let ?re = "plainMatch ''/tmp/karmor/manifest.json''"
  let ?fs = "(demoFs ''IMAGE'')(''/tmp/karmor/manifest.json'' \<mapsto> File ''TWO'')"
  let ?two = "[[(''Config'', JString ''cfg.json'')], [(''Config'', JString ''cfg.json'')]]"
  have j: "Join (tempDir demoEnv) ''manifest.json'' = ''/tmp/karmor/manifest.json''"
    by (simp add: demoEnv_def path_defs)
  have re: "regexpCompile demoEnv (Join (tempDir demoEnv) ''manifest.json'') = Some ?re"
    unfolding j by (simp add: demoEnv_def demoRegexp_def isPlain_def)
  have m: "filter ?re [''/tmp/karmor/manifest.json''] = [''/tmp/karmor/manifest.json'']"
    by (simp add: charMatch_def)
  have g: "getFileBytes ?fs ''/tmp/karmor/manifest.json'' = Inr (''TWO'', False)"
    by (simp add: getFileBytes_def path_defs)
  have u: "UnmarshalMaps demoEnv ''TWO'' = Some ?two"
    by (simp add: UnmarshalMaps_def demoEnv_def demoJson_def asMap_def)
  show ?thesis
    using cardinality_errors_set_nothing
      [of demoEnv ?re
          "\<lparr>Name = ''demo'', RepoTags = [], Arch = [], OS = [], FileList = [], DirList = []\<rparr>"
          "demoFs ''IMAGE''"]
      cardinality_errors_set_nothing
      [of demoEnv ?re
          "\<lparr>Name = ''demo'', RepoTags = [], Arch = [], OS = [],
            FileList = [''/tmp/karmor/manifest.json''], DirList = []\<rparr>"
          ?fs "''/tmp/karmor/manifest.json''" "''TWO''" ?two]
      re m g u
    by simp
qed

text \<open>
  C5. When \<open>readManifest\<close> returns, the architecture and the operating system of the
  \<open>ImageInfo\<close> are the strings under the keys \<open>architecture\<close> and \<open>os\<close> of the config
  record that the manifest leads to. When it does not return, each of the two fields is
  either what it was before or such a string of that record. And whenever there is no such
  record (the config file cannot be read or parsed), or one of the two keys is missing or
  is no string, \<open>readManifest\<close> does not return: the process stops.
\<close>

theorem arch_and_os_come_from_config:
  "(readManifest E fs img manifest = Done u img' \<longrightarrow>
      (\<exists>cfg. configOf E fs manifest = Some cfg \<and>
             map_of cfg ''architecture'' = Some (JString (Arch img')) \<and>
             map_of cfg ''os'' = Some (JString (OS img')))) \<and>
   (readManifest E fs img manifest = Failed e s \<longrightarrow>
      (Arch s = Arch img \<or>
       (\<exists>cfg. configOf E fs manifest = Some cfg \<and>
              map_of cfg ''architecture'' = Some (JString (Arch s)))) \<and>
      (OS s = OS img \<or>
       (\<exists>cfg. configOf E fs manifest = Some cfg \<and>
              map_of cfg ''os'' = Some (JString (OS s))))) \<and>
   ((case configOf E fs manifest of
       None \<Rightarrow> True
     | Some cfg \<Rightarrow>
         assertString (map_of cfg ''architecture'') = None \<or>
         assertString (map_of cfg ''os'') = None) \<longrightarrow>
      (\<exists>e' s'. readManifest E fs img manifest = Failed e' s'))"
proof (cases "configOf E fs manifest")
  case None
  from readManifest_no_config[OF None, of img] obtain e0 where
    "readManifest E fs img manifest = Failed e0 img" ..
  then show ?thesis using None by auto
next
  case (Some cfg)
  from readManifest_config[OF Some, of img] obtain rc where r:
    "readManifest E fs img manifest =
     (case assertString (map_of cfg ''architecture'') of
        None \<Rightarrow> Failed (Panic ''interface conversion'') img
      | Some a \<Rightarrow>
          (case assertString (map_of cfg ''os'') of
             None \<Rightarrow> Failed (Panic ''interface conversion'') (img\<lparr>Arch := a\<rparr>)
           | Some os \<Rightarrow>
               (case assertSlice (map_of rc ''RepoTags'') of
                  None \<Rightarrow> Failed (Panic ''interface conversion'') (img\<lparr>Arch := a, OS := os\<rparr>)
                | Some tags \<Rightarrow> appendTags (img\<lparr>Arch := a, OS := os\<rparr>) tags)))" ..
  have as: "assertString x = Some y \<Longrightarrow> x = Some (JString y)" for x y
    by (auto simp: assertString_def split: option.splits json.splits)
  show ?thesis
  proof (cases "assertString (map_of cfg ''architecture'')")
    case None
    then show ?thesis using Some r by simp
  next
    case (Some a)
    note a = Some
    show ?thesis
    proof (cases "assertString (map_of cfg ''os'')")
      case None
      then show ?thesis using \<open>configOf E fs manifest = Some cfg\<close> r a as[OF a] by auto
    next
      case (Some os)
      note os = Some
      show ?thesis
      proof (cases "assertSlice (map_of rc ''RepoTags'')")
        case None
        then show ?thesis
          using \<open>configOf E fs manifest = Some cfg\<close> r a os as[OF a] as[OF os] by auto
      next
        case (Some tags)
        have rr: "readManifest E fs img manifest = appendTags (img\<lparr>Arch := a, OS := os\<rparr>) tags"
          using r a os Some by simp
        show ?thesis
          using \<open>configOf E fs manifest = Some cfg\<close> a os as[OF a] as[OF os]
            appendTags_keeps(1)[of "img\<lparr>Arch := a, OS := os\<rparr>" tags]
            appendTags_keeps(2)[of "img\<lparr>Arch := a, OS := os\<rparr>" tags]
          unfolding rr by auto
      qed
    qed
  qed
qed


theorem arch_and_os_come_from_config_witness:
  "readManifest demoEnv
     ((demoFs ''IMAGE'')(''/tmp/karmor/manifest.json'' \<mapsto> File ''MANIFEST'',
        ''/tmp/karmor/cfg.json'' \<mapsto> File ''CONFIG''))
     \<lparr>Name = ''demo'', RepoTags = [], Arch = [], OS = [], FileList = [], DirList = []\<rparr>
     ''/tmp/karmor/manifest.json'' =
   Done ()
     \<lparr>Name = ''demo'', RepoTags = [''demo:latest''], Arch = ''amd64'', OS = ''linux'',
      FileList = [], DirList = []\<rparr> \<and>
   configOf demoEnv
     ((demoFs ''IMAGE'')(''/tmp/karmor/manifest.json'' \<mapsto> File ''MANIFEST'',
        ''/tmp/karmor/cfg.json'' \<mapsto> File ''CONFIG''))
     ''/tmp/karmor/manifest.json'' =
   Some [(''architecture'', JString ''amd64''), (''os'', JString ''linux'')] \<and>
   (\<exists>e s. readManifest demoEnv
       ((demoFs ''IMAGE'')(''/tmp/karmor/manifest.json'' \<mapsto> File ''MANIFEST'',
          ''/tmp/karmor/cfg.json'' \<mapsto> File ''NOARCH''))
       \<lparr>Name = ''demo'', RepoTags = [], Arch = [], OS = [], FileList = [], DirList = []\<rparr>
       ''/tmp/karmor/manifest.json'' = Failed e s)"
proof -
  let ?img = "\<lparr>Name = ''demo'', RepoTags = [], Arch = [], OS = [], FileList = [], DirList = []\<rparr>"
  let ?good = "(demoFs ''IMAGE'')(''/tmp/karmor/manifest.json'' \<mapsto> File ''MANIFEST'',
        ''/tmp/karmor/cfg.json'' \<mapsto> File ''CONFIG'')"
  let ?bad = "(demoFs ''IMAGE'')(''/tmp/karmor/manifest.json'' \<mapsto> File ''MANIFEST'',
        ''/tmp/karmor/cfg.json'' \<mapsto> File ''NOARCH'')"
  have j: "Join (tempDir demoEnv) ''cfg.json'' = ''/tmp/karmor/cfg.json''"
    by (simp add: demoEnv_def path_defs)
  have c1: "Clean ''/tmp/karmor/manifest.json'' = ''/tmp/karmor/manifest.json''"
    and c2: "Clean ''/tmp/karmor/cfg.json'' = ''/tmp/karmor/cfg.json''"
    by (simp_all add: path_defs)
  have um: "UnmarshalMaps demoEnv ''MANIFEST'' =
      Some [[(''Config'', JString ''cfg.json''), (''RepoTags'', JArray [JString ''demo:latest''])]]"
    by (simp add: UnmarshalMaps_def demoEnv_def demoJson_def asMap_def)
  have uc: "UnmarshalMap demoEnv ''CONFIG'' =
      Some [(''architecture'', JString ''amd64''), (''os'', JString ''linux'')]"
    by (simp add: UnmarshalMap_def demoEnv_def demoJson_def asMap_def)
  have un: "UnmarshalMap demoEnv ''NOARCH'' = Some [(''os'', JString ''linux'')]"
    by (simp add: UnmarshalMap_def demoEnv_def demoJson_def asMap_def)
  have run: "readManifest demoEnv ?good ?img ''/tmp/karmor/manifest.json'' =
     Done () \<lparr>Name = ''demo'', RepoTags = [''demo:latest''], Arch = ''amd64'', OS = ''linux'',
      FileList = [], DirList = []\<rparr>"
    by (simp add: readManifest_def getFileBytes_def c1 c2 j um uc assertString_def
          assertSlice_def)
  have cg: "configOf demoEnv ?good ''/tmp/karmor/manifest.json'' =
     Some [(''architecture'', JString ''amd64''), (''os'', JString ''linux'')]"
    by (simp add: configOf_def getFileBytes_def c1 c2 j um uc assertString_def)
  have cb: "configOf demoEnv ?bad ''/tmp/karmor/manifest.json'' = Some [(''os'', JString ''linux'')]"
    by (simp add: configOf_def getFileBytes_def c1 c2 j um un assertString_def)
  have "\<exists>e s. readManifest demoEnv ?bad ?img ''/tmp/karmor/manifest.json'' = Failed e s"
    using arch_and_os_come_from_config
      [of demoEnv ?bad ?img "''/tmp/karmor/manifest.json''"] cb
    by (simp add: assertString_def)
  with run cg show ?thesis by (simp only: simp_thms)
qed

section \<open>The search for the manifest\<close>

lemma matchHere_iff:
  "matchHere p s \<longleftrightarrow>
     (\<exists>m post. s = m @ post \<and>
        list_all2 charMatch p m)"
proof (induction p s rule: matchHere.induct)
  case (1 s)
  then show ?case by simp
next
  case (2 p ps)
  then show ?case by simp
next
  case (3 p ps c cs)
  show ?case
  proof
    assume a: "matchHere (p # ps) (c # cs)"
    then have h: "charMatch p c" and "matchHere ps cs"
      by simp_all
    then obtain m post where "cs = m @ post"
      "list_all2 charMatch ps m"
      using 3 by blast
    then have "c # cs = (c # m) @ post \<and>
       list_all2 charMatch (p # ps) (c # m)"
      using h by simp
    then show "\<exists>m post. c # cs = m @ post \<and>
        list_all2 charMatch (p # ps) m"
      by blast
  next
    assume "\<exists>m post. c # cs = m @ post \<and>
        list_all2 charMatch (p # ps) m"
    then obtain m post where e: "c # cs = m @ post" and
      l: "list_all2 charMatch (p # ps) m"
      by blast
    from l obtain c' m' where m: "m = c' # m'" and
      h: "charMatch p c'" and
      l': "list_all2 charMatch ps m'"
      by (cases m) auto
    from e m have "c' = c" "cs = m' @ post" by simp_all
    then show "matchHere (p # ps) (c # cs)"
      using h l' 3 by auto
  qed
qed

lemma plainMatch_iff:
  "plainMatch p s \<longleftrightarrow>
     (\<exists>pre m post. s = pre @ m @ post \<and>
        list_all2 charMatch p m)"
proof (induction s)
  case Nil
  show ?case
    by (auto simp: matchHere_iff)
next
  case (Cons c cs)
  show ?case
  proof
    assume "plainMatch p (c # cs)"
    then consider "matchHere p (c # cs)" | "plainMatch p cs" by auto
    then show "\<exists>pre m post. c # cs = pre @ m @ post \<and>
        list_all2 charMatch p m"
    proof cases
      case 1
      then obtain m post where "c # cs = [] @ m @ post \<and>
        list_all2 charMatch p m"
        unfolding matchHere_iff by auto
      then show ?thesis by blast
    next
      case 2
      then obtain pre m post where "cs = pre @ m @ post"
        "list_all2 charMatch p m"
        using Cons by blast
      then have "c # cs = (c # pre) @ m @ post \<and>
        list_all2 charMatch p m"
        by simp
      then show ?thesis by blast
    qed
  next
    assume "\<exists>pre m post. c # cs = pre @ m @ post \<and>
        list_all2 charMatch p m"
    then obtain pre m post where e: "c # cs = pre @ m @ post" and
      l: "list_all2 charMatch p m"
      by blast
    show "plainMatch p (c # cs)"
    proof (cases pre)
      case Nil
      then have "matchHere p (c # cs)" using e l unfolding matchHere_iff by auto
      then show ?thesis by simp
    next
      case (Cons a pre')
      then have "cs = pre' @ m @ post" using e by simp
      then have "plainMatch p cs" using l Cons.IH by blast
      then show ?thesis by simp
    qed
  qed
qed

text \<open>
  C10, amended. When the pattern does not compile, \<open>checkForSpec\<close> panics. When it
  compiles, \<open>checkForSpec\<close> returns exactly the names of the list that the compiled pattern
  matches, in the order of the list; \<open>getImageInfo\<close> passes the joined path of the manifest
  as it is, neither quoted nor anchored. Where \<open>Match\<close> is the search for a plain pattern,
  the names returned are those that hold, anywhere, a run of characters that agrees with
  the pattern character by character, a dot of the pattern agreeing with any character but
  a newline.
\<close>

theorem checkForSpec_filters_by_match:
  "(regexpCompile E spec = None \<longrightarrow>
      checkForSpec E spec fl = Inl (Panic ''regexp: Compile failed'')) \<and>
   (regexpCompile E spec = Some re \<longrightarrow> checkForSpec E spec fl = Inr (filter re fl)) \<and>
   (regexpCompile E spec = Some re \<and> list_all (\<lambda>name. re name = plainMatch spec name) fl \<longrightarrow>
      checkForSpec E spec fl =
      Inr (filter
             (\<lambda>name. \<exists>pre m post. name = pre @ m @ post \<and>
                list_all2 charMatch spec m)
             fl)) \<and>
   (regexpCompile E (Join (tempDir E) ''manifest.json'') = Some re \<longrightarrow>
      getImageInfo E fs img =
      (if length (filter re (FileList img)) \<noteq> 1
       then Failed (Fatal ''expecting one manifest.json!'') img
       else readManifest E fs img (filter re (FileList img) ! 0)))"
proof (intro conjI impI)
  assume "regexpCompile E spec = None"
  then show "checkForSpec E spec fl = Inl (Panic ''regexp: Compile failed'')"
    by (simp add: checkForSpec_def)
next
  assume "regexpCompile E spec = Some re"
  then show "checkForSpec E spec fl = Inr (filter re fl)"
    by (rule checkForSpec_filter)
next
  assume a: "regexpCompile E spec = Some re \<and>
             list_all (\<lambda>name. re name = plainMatch spec name) fl"
  then have "filter re fl = filter (plainMatch spec) fl"
    by (intro filter_cong) (auto simp: list_all_iff)
  moreover have "plainMatch spec =
      (\<lambda>name. \<exists>pre m post. name = pre @ m @ post \<and> list_all2 charMatch spec m)"
    by (rule ext) (rule plainMatch_iff)
  ultimately have "filter re fl =
      filter (\<lambda>name. \<exists>pre m post. name = pre @ m @ post \<and> list_all2 charMatch spec m) fl"
    by (simp only:)
  then show "checkForSpec E spec fl =
      Inr (filter
             (\<lambda>name. \<exists>pre m post. name = pre @ m @ post \<and>
                list_all2 charMatch spec m)
             fl)"
    using a by (simp add: checkForSpec_filter)
next
  assume "regexpCompile E (Join (tempDir E) ''manifest.json'') = Some re"
  then show "getImageInfo E fs img =
      (if length (filter re (FileList img)) \<noteq> 1
       then Failed (Fatal ''expecting one manifest.json!'') img
       else readManifest E fs img (filter re (FileList img) ! 0))"
    by (simp add: getImageInfo_def checkForSpec_filter)
qed

theorem checkForSpec_filters_by_match_witness:
  "checkForSpec demoEnv ''/tmp/karmor/manifest.json''
     [''/tmp/karmor/manifest.json'', ''/tmp/karmor/etc/hostname'',
      ''/tmp/karmor/manifestXjson.bak'', ''/srv/tmp/karmor/manifest.json''] =
   Inr [''/tmp/karmor/manifest.json'', ''/tmp/karmor/manifestXjson.bak'',
        ''/srv/tmp/karmor/manifest.json'']"
proof -
  let ?fl = "[''/tmp/karmor/manifest.json'', ''/tmp/karmor/etc/hostname'',
      ''/tmp/karmor/manifestXjson.bak'', ''/srv/tmp/karmor/manifest.json'']"
  have re: "regexpCompile demoEnv ''/tmp/karmor/manifest.json'' =
            Some (plainMatch ''/tmp/karmor/manifest.json'')"
    by (simp add: demoEnv_def demoRegexp_def isPlain_def)
  have ag: "list_all (\<lambda>name. plainMatch ''/tmp/karmor/manifest.json'' name =
                          plainMatch ''/tmp/karmor/manifest.json'' name) ?fl"
    by simp
  have f: "filter (plainMatch ''/tmp/karmor/manifest.json'') ?fl =
     [''/tmp/karmor/manifest.json'', ''/tmp/karmor/manifestXjson.bak'',
        ''/srv/tmp/karmor/manifest.json'']"
    by (simp add: charMatch_def)
  from checkForSpec_filters_by_match
    [of demoEnv "''/tmp/karmor/manifest.json''" ?fl "plainMatch ''/tmp/karmor/manifest.json''"]
    re
  have "checkForSpec demoEnv ''/tmp/karmor/manifest.json'' ?fl =
        Inr (filter (plainMatch ''/tmp/karmor/manifest.json'') ?fl)"
    by blast
  then show ?thesis unfolding f .
qed

text \<open>
  C10 as stated fails twice: a dot does not match a newline, so a path that holds the
  pattern but for a newline in the place of the dot is not returned; and a pattern that
  does not compile makes \<open>checkForSpec\<close> panic instead of returning.
\<close>

theorem dot_is_not_any_character_counterexample:
  "checkForSpec demoEnv ''/tmp/karmor/manifest.json''
     [''/tmp/karmor/manifest'' @ [CHR 0x0A] @ ''json''] = Inr [] \<and>
   checkForSpec demoEnv ''/tmp/karmor('' [''/tmp/karmor(''] = Inl (Panic ''regexp: Compile failed'')"
  by (simp add: checkForSpec_def demoEnv_def demoRegexp_def isPlain_def charMatch_def)

section \<open>The round trip\<close>





section \<open>Cleaning a cleaned path\<close>

















section \<open>What the sanitizer lets through\<close>



lemma admittedI:
  assumes "sanitizeArchivePath (tempDir E) name = Inr v"
  shows "v \<in> admitted E" "Clean v \<in> admitted E" "parentDir (Clean v) \<in> admitted E"
    "set (chain (rooted v) (rev (cleanElems v))) \<subseteq> admitted E"
  using assms unfolding admitted_def by blast+












section \<open>Extracting twice\<close>

lemma mkdirAll_agree:
  assumes "\<forall>p\<in>S. f p = g p" and "set (chain r up) \<subseteq> S"
  shows "rel_option (\<lambda>f' g'. \<forall>p\<in>S. f' p = g' p) (mkdirAll r up f) (mkdirAll r up g)"
  using assms
proof (induction up)
  case Nil
  then have "f (render r []) = g (render r [])" by simp
  then show ?case using Nil
    by (auto split: option.splits node.splits)
next
  case (Cons e up)
  then have eq: "f (render r (rev (e # up))) = g (render r (rev (e # up)))"
    and sub: "set (chain r up) \<subseteq> S" and q: "render r (rev (e # up)) \<in> S"
    by auto
  have IH: "rel_option (\<lambda>f' g'. \<forall>p\<in>S. f' p = g' p) (mkdirAll r up f) (mkdirAll r up g)"
    using Cons.IH Cons.prems(1) sub by blast
  show ?case
  proof (cases "g (render r (rev (e # up)))")
    case None
    then have fn: "f (render r (rev (e # up))) = None" using eq by simp
    show ?thesis
    proof (cases "mkdirAll r up f")
      case None
      then have "mkdirAll r up g = None" using IH by (cases "mkdirAll r up g") auto
      then show ?thesis using None fn \<open>g (render r (rev (e # up))) = None\<close> by simp
    next
      case (Some f')
      then obtain g' where g': "mkdirAll r up g = Some g'" and a: "\<forall>p\<in>S. f' p = g' p"
        using IH by (cases "mkdirAll r up g") auto
      show ?thesis using Some g' a fn \<open>g (render r (rev (e # up))) = None\<close> by simp
    qed
  next
    case (Some nd)
    then have "f (render r (rev (e # up))) = Some nd" using eq by simp
    then show ?thesis using Some Cons.prems(1) by (cases nd) auto
  qed
qed

lemma OpenFile_agree:
  assumes "\<forall>p\<in>S. f p = g p" and "q \<in> S" and "parentDir q \<in> S"
  shows "rel_option (\<lambda>f' g'. \<forall>p\<in>S. f' p = g' p) (OpenFile f q) (OpenFile g q)"
proof -
  have "f q = g q" "f (parentDir q) = g (parentDir q)" using assms by auto
  then show ?thesis using assms(1)
    by (auto simp: OpenFile_def split: option.splits node.splits)
qed

lemma writeFile_agree:
  assumes "\<forall>p\<in>S. f p = g p" and "q \<in> S"
  shows "\<forall>p\<in>S. writeFile f q w p = writeFile g q w p"
proof -
  have "f q = g q" using assms by auto
  then show ?thesis using assms(1)
    by (auto simp: writeFile_def split: option.splits node.splits)
qed

lemma extractEntry_agree:
  assumes S: "admitted E \<subseteq> S" and a: "\<forall>p\<in>S. f p = g p"
    and IH: "\<And>t f g. Clean t \<in> S \<Longrightarrow> \<forall>p\<in>S. f p = g p \<Longrightarrow>
               sameRun S (extractTar E n t f) (extractTar E n t g)"
  shows "sameRun S (extractEntry E n h b c f) (extractEntry E n h b c g)"
proof (cases "sanitizeArchivePath (tempDir E) (hdrName h)")
  case (Inl err)
  then show ?thesis using a by (simp add: extractEntry_def sameRun_def)
next
  case (Inr tgt)
  note ad = admittedI[OF Inr]
  have tS: "tgt \<in> S" "Clean tgt \<in> S" "parentDir (Clean tgt) \<in> S"
    "set (chain (rooted tgt) (rev (cleanElems tgt))) \<subseteq> S"
    using ad S by auto
  show ?thesis
  proof (cases "hdrTypeflag h = TypeDir")
    case True
    have st: "osStat f tgt = osStat g tgt" using a tS(1) by (simp add: osStat_def)
    have mk: "rel_option (\<lambda>f' g'. \<forall>p\<in>S. f' p = g' p) (MkdirAll f tgt) (MkdirAll g tgt)"
      unfolding MkdirAll_def using mkdirAll_agree[OF a tS(4)] .
    show ?thesis
    proof (cases "osStat g tgt")
      case True
      then show ?thesis using Inr \<open>hdrTypeflag h = TypeDir\<close> st a
        by (simp add: extractEntry_def sameRun_def)
    next
      case False
      show ?thesis
      proof (cases "MkdirAll f tgt")
        case None
        then have "MkdirAll g tgt = None" using mk by (cases "MkdirAll g tgt") auto
        then show ?thesis using None Inr \<open>hdrTypeflag h = TypeDir\<close> st False a
          by (simp add: extractEntry_def sameRun_def)
      next
        case (Some f')
        then obtain g' where "MkdirAll g tgt = Some g'" "\<forall>p\<in>S. f' p = g' p"
          using mk by (cases "MkdirAll g tgt") auto
        then show ?thesis using Some Inr \<open>hdrTypeflag h = TypeDir\<close> st False
          by (simp add: extractEntry_def sameRun_def)
      qed
    qed
  next
    case False
    note nd = False
    show ?thesis
    proof (cases "hdrTypeflag h = TypeReg")
      case False
      then show ?thesis using Inr nd a by (simp add: extractEntry_def sameRun_def)
    next
      case True
      have op: "rel_option (\<lambda>f' g'. \<forall>p\<in>S. f' p = g' p)
                  (OpenFile f (Clean tgt)) (OpenFile g (Clean tgt))"
        using OpenFile_agree[OF a tS(2) tS(3)] .
      show ?thesis
      proof (cases "OpenFile f (Clean tgt)")
        case None
        then have "OpenFile g (Clean tgt) = None"
          using op by (cases "OpenFile g (Clean tgt)") auto
        then show ?thesis using None Inr nd True a
          by (simp add: extractEntry_def sameRun_def)
      next
        case (Some f1)
        then obtain g1 where g1: "OpenFile g (Clean tgt) = Some g1"
          and a1: "\<forall>p\<in>S. f1 p = g1 p"
          using op by (cases "OpenFile g (Clean tgt)") auto
        obtain w eof where cp: "CopyN b c copyLimit = (w, eof)"
          by (cases "CopyN b c copyLimit")
        have a2: "\<forall>p\<in>S. writeFile f1 (Clean tgt) w p = writeFile g1 (Clean tgt) w p"
          using writeFile_agree[OF a1 tS(2)] .
        show ?thesis
        proof (cases "eof \<and> HasSuffix tgt ''layer.tar''")
          case True
          then show ?thesis
            using Some g1 cp Inr nd \<open>hdrTypeflag h = TypeReg\<close> IH[OF tS(2) a2]
            by (simp add: extractEntry_def)
        next
          case False
          then show ?thesis
            using Some g1 cp Inr nd \<open>hdrTypeflag h = TypeReg\<close> a2
            by (auto simp: extractEntry_def sameRun_def)
        qed
      qed
    qed
  qed
qed

lemma inventory_agree:
  assumes S: "admitted E \<subseteq> S"
    and IH: "\<And>t f g. Clean t \<in> S \<Longrightarrow> \<forall>p\<in>S. f p = g p \<Longrightarrow>
               sameRun S (extractTar E n t f) (extractTar E n t g)"
  shows "\<forall>p\<in>S. f p = g p \<Longrightarrow> sameRun S (inventory E n xs f) (inventory E n xs g)"
proof (induction xs arbitrary: f g)
  case Nil
  then show ?case by (simp add: sameRun_def)
next
  case (Cons x xs)
  show ?case
  proof (cases x)
    case NextErr
    then show ?thesis using Cons.prems by (simp add: sameRun_def)
  next
    case (NextHdr h b c)
    have e: "sameRun S (extractEntry E n h b c f) (extractEntry E n h b c g)"
      using extractEntry_agree[OF S Cons.prems IH] .
    show ?thesis
    proof (cases "extractEntry E n h b c f")
      case (Done r f1)
      then obtain g1 where g1: "extractEntry E n h b c g = Done r g1"
        and a1: "\<forall>p\<in>S. f1 p = g1 p"
        using e by (auto simp: sameRun_def)
      obtain fl dl where r: "r = (fl, dl)" by (cases r)
      have "sameRun S (inventory E n xs f1) (inventory E n xs g1)"
        using Cons.IH[OF a1] .
      then show ?thesis unfolding NextHdr
        by (cases "inventory E n xs f1")
           (auto simp: Done g1 r sameRun_def split: prod.splits)
    next
      case (Failed err f1)
      then show ?thesis using e unfolding NextHdr by (auto simp: sameRun_def)
    next
      case OutOfFuel
      then show ?thesis using e unfolding NextHdr by (auto simp: sameRun_def)
    qed
  qed
qed

lemma extractTar_agree:
  assumes S: "admitted E \<subseteq> S"
  shows "Clean t \<in> S \<Longrightarrow> \<forall>p\<in>S. f p = g p \<Longrightarrow>
         sameRun S (extractTar E n t f) (extractTar E n t g)"
proof (induction n arbitrary: t f g)
  case 0
  then show ?case by (simp add: sameRun_def)
next
  case (Suc n)
  have eq: "f (Clean t) = g (Clean t)" using Suc.prems by auto
  show ?case
  proof (cases "g (Clean t)")
    case None
    then show ?thesis using eq Suc.prems(2)
      by (simp add: sameRun_def del: extractTar.simps add: extractTar_inventory)
  next
    case (Some nd)
    show ?thesis
    proof (cases nd)
      case Dir
      then show ?thesis using Some eq Suc.prems(2)
        by (simp add: sameRun_def del: extractTar.simps add: extractTar_inventory)
    next
      case (File b)
      have "sameRun S (inventory E n (tarReader E b) f) (inventory E n (tarReader E b) g)"
        using inventory_agree[OF S Suc.IH Suc.prems(2)] by blast
      then show ?thesis using Some File eq
        by (simp del: extractTar.simps add: extractTar_inventory)
    qed
  qed
qed

text \<open>
  Two extractions of the archive at \<open>tarname\<close>, from file systems that agree on that path
  and on every path that the sanitizer lets an entry reach, end alike: with the same lists
  or the same failure.
\<close>

lemma same_paths_same_run:
  assumes "\<forall>p\<in>insert (Clean tarname) (admitted E). f p = g p"
  shows "resultOf (extractTar E n tarname f) = resultOf (extractTar E n tarname g)"
proof -
  have "sameRun (insert (Clean tarname) (admitted E))
          (extractTar E n tarname f) (extractTar E n tarname g)"
    using extractTar_agree[of E "insert (Clean tarname) (admitted E)" tarname f g n] assms
    by blast
  then show ?thesis
    by (cases "extractTar E n tarname f") (auto simp: sameRun_def resultOf_def)
qed

text \<open>
  C8 fails on the archive that writes two layers to the same path in a sibling of the
  root. The first extraction, into an empty root, returns the files \<open>a\<close> and \<open>c\<close> and
  leaves the second layer at \<open>/tmp/karmor-evil/layer.tar\<close>. Emptying the root does not
  remove that file. The second extraction writes the first layer over it, without
  truncation, so that the file reads as the first layer followed by the end of the second,
  and returns the files \<open>a\<close>, \<open>z\<close> and \<open>c\<close>.
\<close>

theorem second_extraction_differs:
  "(\<exists>fs1. extractTar demoEnv (Suc (Suc 0)) ''/tmp/karmor/image.tar'' (demoFs ''TWICE'') =
      Done ([''/tmp/karmor/a'', ''/tmp/karmor/c''], [''/tmp/karmor-evil'']) fs1 \<and>
      fs1 ''/tmp/karmor-evil'' = Some Dir \<and>
      fs1 ''/tmp/karmor-evil/layer.tar'' = Some (File ''HcHz'')) \<and>
   (\<exists>fs2. extractTar demoEnv (Suc (Suc 0)) ''/tmp/karmor/image.tar''
      ((demoFs ''TWICE'')(''/tmp/karmor-evil'' \<mapsto> Dir,
         ''/tmp/karmor-evil/layer.tar'' \<mapsto> File ''HcHz'')) =
      Done ([''/tmp/karmor/a'', ''/tmp/karmor/z'', ''/tmp/karmor/c''], [''/tmp/karmor-evil''])
        fs2)"
  by (simp add: demoEnv_def demoTar_def path_defs demoFs_def os_defs)

section \<open>The fuel\<close>

text \<open>
  A run that ends with some fuel ends in the same way with more. And there are archives on
  which no fuel is enough: a file \<open>layer.tar\<close> whose one entry is named \<open>layer.tar\<close> and
  whose body, written over the file without truncation, leaves the file as it was.
\<close>

lemma extractEntry_more_fuel:
  assumes IH: "\<And>t f out. extractTar E n t f = out \<Longrightarrow> out \<noteq> OutOfFuel \<Longrightarrow>
                 extractTar E (Suc n) t f = out"
    and "extractEntry E n h b c f = out" and "out \<noteq> OutOfFuel"
  shows "extractEntry E (Suc n) h b c f = out"
proof (cases "sanitizeArchivePath (tempDir E) (hdrName h)")
  case (Inl a)
  then show ?thesis using assms(2) by (simp add: extractEntry_def)
next
  case (Inr tgt)
  show ?thesis
  proof (cases "hdrTypeflag h = TypeDir")
    case True
    then show ?thesis using assms(2) Inr by (simp add: extractEntry_def)
  next
    case False
    note nd = False
    show ?thesis
    proof (cases "hdrTypeflag h = TypeReg")
      case False
      then show ?thesis using assms(2) Inr nd by (simp add: extractEntry_def)
    next
      case True
      show ?thesis
      proof (cases "OpenFile f (Clean tgt)")
        case None
        then show ?thesis using assms(2) Inr nd True by (simp add: extractEntry_def)
      next
        case (Some f1)
        obtain w eof where cp: "CopyN b c copyLimit = (w, eof)"
          by (cases "CopyN b c copyLimit")
        show ?thesis
        proof (cases "eof \<and> HasSuffix tgt ''layer.tar''")
          case False
          then show ?thesis using assms(2) Inr nd True Some cp
            by (auto simp add: extractEntry_def simp del: extractTar.simps)
        next
          case layer: True
          have "extractEntry E n h b c f = extractTar E n tgt (writeFile f1 (Clean tgt) w)"
            and "extractEntry E (Suc n) h b c f =
                 extractTar E (Suc n) tgt (writeFile f1 (Clean tgt) w)"
            using Inr nd True Some cp layer
            by (simp_all add: extractEntry_def del: extractTar.simps)
          then show ?thesis using IH assms(2,3) by metis
        qed
      qed
    qed
  qed
qed

lemma inventory_more_fuel:
  assumes IH: "\<And>t f out. extractTar E n t f = out \<Longrightarrow> out \<noteq> OutOfFuel \<Longrightarrow>
                 extractTar E (Suc n) t f = out"
  shows "inventory E n xs f = out \<Longrightarrow> out \<noteq> OutOfFuel \<Longrightarrow> inventory E (Suc n) xs f = out"
proof (induction xs arbitrary: f out)
  case Nil
  then show ?case by simp
next
  case (Cons x xs)
  show ?case
  proof (cases x)
    case NextErr
    then show ?thesis using Cons.prems by simp
  next
    case (NextHdr h b c)
    have step: "extractEntry E n h b c f = o1 \<Longrightarrow> o1 \<noteq> OutOfFuel \<Longrightarrow>
                extractEntry E (Suc n) h b c f = o1" for o1
      using extractEntry_more_fuel[where E=E and n=n] IH by blast
    show ?thesis
    proof (cases "extractEntry E n h b c f")
      case (Done r f1)
      obtain fl dl where r: "r = (fl, dl)" by (cases r)
      have e: "extractEntry E (Suc n) h b c f = Done (fl, dl) f1"
        using step[OF Done] r by simp
      have ne: "inventory E n xs f1 \<noteq> OutOfFuel"
        using Cons.prems unfolding NextHdr by (auto simp: Done r)
      have "inventory E (Suc n) xs f1 = inventory E n xs f1"
        using Cons.IH[OF refl ne] .
      then show ?thesis using Cons.prems unfolding NextHdr by (simp add: Done r e)
    next
      case (Failed err f1)
      have e: "extractEntry E (Suc n) h b c f = Failed err f1"
        using step[OF Failed] by simp
      have "out = Failed err f1"
        using Cons.prems(1) unfolding NextHdr by (simp add: Failed)
      then show ?thesis unfolding NextHdr by (simp add: e)
    next
      case OutOfFuel
      then show ?thesis using Cons.prems unfolding NextHdr by simp
    qed
  qed
qed

lemma extractTar_more_fuel:
  "extractTar E n t f = out \<Longrightarrow> out \<noteq> OutOfFuel \<Longrightarrow> extractTar E (Suc n) t f = out"
proof (induction n arbitrary: t f out)
  case 0
  then show ?case by simp
next
  case (Suc n)
  have inv: "inventory E n xs g = o1 \<Longrightarrow> o1 \<noteq> OutOfFuel \<Longrightarrow>
             inventory E (Suc n) xs g = o1" for xs g o1
    using inventory_more_fuel[where E=E and n=n] Suc.IH by blast
  show ?case
    using Suc.prems inv
    unfolding extractTar_inventory[of E "Suc n"] extractTar_inventory[of E n]
    by (auto split: option.splits node.splits)
qed

lemma extractTar_can_run_forever:
  "extractTar demoEnv n ''/tmp/karmor/layer.tar''
     ((demoFs ''HH'')(''/tmp/karmor/layer.tar'' \<mapsto> File ''HH'')) = OutOfFuel"
proof (induction n)
  case 0
  then show ?case by simp
next
  case (Suc n)
  let ?fs = "(demoFs ''HH'')(''/tmp/karmor/layer.tar'' \<mapsto> File ''HH'')"
  have c: "Clean ''/tmp/karmor/layer.tar'' = ''/tmp/karmor/layer.tar''"
    by (simp add: path_defs)
  have s: "sanitizeArchivePath (tempDir demoEnv) ''layer.tar'' = Inr ''/tmp/karmor/layer.tar''"
    by (simp add: demoEnv_def path_defs)
  have t: "tarReader demoEnv ''HH'' = [NextHdr (Header ''layer.tar'' TypeReg 420) ''H'' True]"
    by (simp add: demoEnv_def demoTar_def)
  have o: "OpenFile ?fs ''/tmp/karmor/layer.tar'' = Some ?fs"
    by (simp add: OpenFile_def)
  have w: "writeFile ?fs ''/tmp/karmor/layer.tar'' ''H'' = ?fs"
    by (simp add: writeFile_def)
  have "extractEntry demoEnv n (Header ''layer.tar'' TypeReg 420) ''H'' True ?fs =
        extractTar demoEnv n ''/tmp/karmor/layer.tar'' ?fs"
    by (simp add: extractEntry_def s c o w CopyN_def copyLimit_def HasSuffix_def
          TypeReg_def TypeDir_def del: extractTar.simps)
  then have e: "extractEntry demoEnv n (Header ''layer.tar'' TypeReg 420) ''H'' True ?fs =
                OutOfFuel"
    by (simp only: Suc)
  show ?case
    unfolding extractTar_inventory
    by (simp add: c t e)
qed

end
